theory Spec2Isabelle
  imports Main "HOL-Library.Word"
begin

unbundle bit_operations_syntax

section \<open>The commitment and Merkle-proof client of the withdrawal page\<close>

text \<open>
  The development embeds \<^verbatim>\<open>src/app/withdraw/lib/merkle.ts\<close>: the commitment encoder
  \<^verbatim>\<open>calculateCommitment\<close> with its helper \<^verbatim>\<open>hexToBytes\<close>, and the asynchronous clients
  \<^verbatim>\<open>getMerkleProof\<close>, \<^verbatim>\<open>getCurrentRoot\<close>, \<^verbatim>\<open>checkCommitmentExists\<close> and
  \<^verbatim>\<open>generateCommitmentAndProof\<close>.

  Conventions of the embedding.
  \<^item> A JavaScript string is a \<^typ>\<open>string\<close>; the model covers the code units below 256,
    which include every character of hexadecimal text.
  \<^item> An element of a \<^verbatim>\<open>Uint8Array\<close> is an \<^typ>\<open>8 word\<close>, the array a list of them.
  \<^item> A \<^verbatim>\<open>bigint\<close> is an \<^typ>\<open>int\<close>; \<^verbatim>\<open>>>\<close> and \<^verbatim>\<open>&\<close> on it are
    \<^const>\<open>drop_bit\<close> and \<^term>\<open>(AND)\<close>, both two's complement on negative values as
    in JavaScript.
  \<^item> A thrown value is a \<^verbatim>\<open>js_exn\<close>, a function that can throw returns a sum with the
    thrown value on the left.
  \<^item> \<^verbatim>\<open>keccak256\<close> is imported from the library viem; it is a parameter of the
    functions that call it.
\<close>

subsection \<open>Thrown values\<close>

text \<open>
  \<open>Error m\<close> is an object for which \<^verbatim>\<open>instanceof Error\<close> holds (\<^verbatim>\<open>Error\<close>,
  \<^verbatim>\<open>TypeError\<close>, \<^verbatim>\<open>RangeError\<close>, \<^verbatim>\<open>SyntaxError\<close>), with its message.
  \<open>Thrown s\<close> is any other thrown value, with the text \<^verbatim>\<open>String\<close> gives for it.
\<close>

datatype js_exn = Error string | Thrown string

type_synonym byte = "8 word"

subsection \<open>Built-ins of the language used by the encoder\<close>

text \<open>\<^verbatim>\<open>s.startsWith(p)\<close>.\<close>

definition startsWith :: "string \<Rightarrow> string \<Rightarrow> bool" where
  "startsWith s p = (take (length p) s = p)"

text \<open>
  \<^verbatim>\<open>s.substring(a, b)\<close> and \<^verbatim>\<open>s.substring(a)\<close> for indices that are natural numbers:
  both are clamped to the length and swapped when the first exceeds the second.
\<close>

definition substring :: "string \<Rightarrow> nat \<Rightarrow> nat \<Rightarrow> string" where
  "substring s a b =
     (let a' = min a (length s); b' = min b (length s);
          from = min a' b'; to = max a' b'
      in take (to - from) (drop from s))"

definition substring_from :: "string \<Rightarrow> nat \<Rightarrow> string" where
  "substring_from s a = substring s a (length s)"

text \<open>
  The characters \<^verbatim>\<open>parseInt\<close> skips at the start of its input: white space and line
  terminators (tab, line feed, vertical tab, form feed, carriage return, space, no-break
  space).
\<close>

definition is_js_whitespace :: "char \<Rightarrow> bool" where
  "is_js_whitespace c = (of_char c \<in> {9, 10, 11, 12, 13, 32, 160 :: nat})"

text \<open>The value of a character as a digit of a radix up to 36, if it is one.\<close>

definition digit_of_char :: "char \<Rightarrow> nat option" where
  "digit_of_char c =
     (let n = (of_char c :: nat) in
      if 48 \<le> n \<and> n \<le> 57 then Some (n - 48)
      else if 97 \<le> n \<and> n \<le> 122 then Some (n - 87)
      else if 65 \<le> n \<and> n \<le> 90 then Some (n - 55)
      else None)"

definition is_radix_digit :: "nat \<Rightarrow> char \<Rightarrow> bool" where
  "is_radix_digit R c = (case digit_of_char c of None \<Rightarrow> False | Some d \<Rightarrow> d < R)"

definition digits_value :: "nat \<Rightarrow> string \<Rightarrow> nat" where
  "digits_value R Z = foldl (\<lambda>acc c. acc * R + the (digit_of_char c)) 0 Z"

text \<open>
  \<^verbatim>\<open>parseInt(inputString, 16)\<close>, step by step as the language standard gives it: strip
  leading white space, read a sign, strip \<^verbatim>\<open>0x\<close> or \<^verbatim>\<open>0X\<close>, keep the longest prefix
  of digits of radix 16. \<open>None\<close> is \<^verbatim>\<open>NaN\<close>; negative zero is \<open>0\<close>. The value is
  exact, which for the two-character inputs of \<^verbatim>\<open>hexToBytes\<close> is what the double holds.
\<close>

definition parseInt16 :: "string \<Rightarrow> int option" where
  "parseInt16 inputString =
     (let S = dropWhile is_js_whitespace inputString;
          sign = (if S \<noteq> [] \<and> hd S = CHR ''-'' then - 1 else 1 :: int);
          S1 = (if S \<noteq> [] \<and> (hd S = CHR ''+'' \<or> hd S = CHR ''-'') then tl S else S);
          S2 = (if 2 \<le> length S1 \<and> (take 2 S1 = ''0x'' \<or> take 2 S1 = ''0X'')
                then drop 2 S1 else S1);
          Z = takeWhile (is_radix_digit 16) S2
      in if Z = [] then None else Some (sign * int (digits_value 16 Z)))"

text \<open>
  Storing a number into an element of a \<^verbatim>\<open>Uint8Array\<close>: \<^verbatim>\<open>NaN\<close> is stored as 0, an
  integer modulo 256.
\<close>

definition toUint8 :: "int option \<Rightarrow> byte" where
  "toUint8 v = (case v of None \<Rightarrow> 0 | Some n \<Rightarrow> word_of_int n)"

text \<open>
  \<^verbatim>\<open>new Uint8Array(n)\<close>: \<open>n\<close> zero bytes. The constructor converts its argument with
  the standard's \<^verbatim>\<open>ToIndex\<close>, which truncates a fraction, so for the argument
  \<^verbatim>\<open>hex.length / 2\<close> of \<^verbatim>\<open>hexToBytes\<close> the length is the integer quotient.
\<close>

definition new_Uint8Array :: "nat \<Rightarrow> byte list" where
  "new_Uint8Array n = replicate n 0"

text \<open>
  \<^verbatim>\<open>target.set(source, offset)\<close> throws a \<^verbatim>\<open>RangeError\<close> when the source does not fit
  at the offset, and copies it there otherwise.
\<close>

definition set_at :: "byte list \<Rightarrow> byte list \<Rightarrow> nat \<Rightarrow> js_exn + byte list" where
  "set_at target source offset =
     (if offset + length source > length target then Inl (Error ''offset is out of bounds'')
      else Inr (take offset target @ source @ drop (offset + length source) target))"

subsection \<open>hexToBytes\<close>

definition hexToBytes :: "string \<Rightarrow> byte list" where
  "hexToBytes hex0 =
     (let hex = (if startsWith hex0 ''0x'' then substring_from hex0 2 else hex0);
          bytes = new_Uint8Array (length hex div 2)
      in fold (\<lambda>i bytes. bytes[i := toUint8 (parseInt16 (substring hex (i * 2) (i * 2 + 2)))])
           [0 ..< length bytes] bytes)"

subsection \<open>calculateCommitment\<close>

text \<open>One pass of the loop that fills \<^verbatim>\<open>assetIdBytes\<close> and \<^verbatim>\<open>amountBytes\<close>.\<close>

definition fill_step :: "int \<Rightarrow> int \<Rightarrow> nat \<Rightarrow> byte list \<times> byte list \<Rightarrow> byte list \<times> byte list" where
  "fill_step assetId amount i st =
     (case st of (assetIdBytes, amountBytes) \<Rightarrow>
        (assetIdBytes[31 - i := word_of_int (drop_bit (i * 8) assetId AND 255)],
         amountBytes[31 - i := word_of_int (drop_bit (i * 8) amount AND 255)]))"

definition calculateCommitment ::
    "(byte list \<Rightarrow> 'h) \<Rightarrow> string \<Rightarrow> string \<Rightarrow> int \<Rightarrow> int \<Rightarrow> js_exn + 'h" where
  "calculateCommitment keccak256 secret nullifier assetId amount =
     (let secretBytes = hexToBytes secret;
          nullifierBytes = hexToBytes nullifier;
          (assetIdBytes, amountBytes) =
             fold (fill_step assetId amount) [0 ..< 32] (new_Uint8Array 32, new_Uint8Array 32);
          combined = new_Uint8Array (length secretBytes + length nullifierBytes
                        + length assetIdBytes + length amountBytes)
      in (case set_at combined secretBytes 0 of Inl e \<Rightarrow> Inl e | Inr c1 \<Rightarrow>
         (case set_at c1 nullifierBytes (length secretBytes) of Inl e \<Rightarrow> Inl e | Inr c2 \<Rightarrow>
         (case set_at c2 assetIdBytes (length secretBytes + length nullifierBytes) of
            Inl e \<Rightarrow> Inl e | Inr c3 \<Rightarrow>
         (case set_at c3 amountBytes
                 (length secretBytes + length nullifierBytes + length assetIdBytes) of
            Inl e \<Rightarrow> Inl e | Inr c4 \<Rightarrow>
         Inr (keccak256 c4))))))"

subsection \<open>The encoding as the specification words it\<close>

text \<open>
  The specification's hexadecimal text: an optional \<^verbatim>\<open>0x\<close>, then an even number of
  the characters \<^verbatim>\<open>0-9\<close>, \<^verbatim>\<open>a-f\<close>, \<^verbatim>\<open>A-F\<close>; each pair is one byte, the high
  digit first.
\<close>

definition spec_hex_digit :: "char \<Rightarrow> nat option" where
  "spec_hex_digit c =
     map_of (zip ''0123456789abcdef'' [0 ..< 16] @ zip ''ABCDEF'' [10 ..< 16]) c"

definition is_hex_char :: "char \<Rightarrow> bool" where
  "is_hex_char c = (spec_hex_digit c \<noteq> None)"

fun spec_strip_0x :: "string \<Rightarrow> string" where
  "spec_strip_0x (CHR ''0'' # CHR ''x'' # rest) = rest"
| "spec_strip_0x s = s"

definition valid_hex :: "string \<Rightarrow> bool" where
  "valid_hex s = (even (length (spec_strip_0x s)) \<and> list_all is_hex_char (spec_strip_0x s))"

fun spec_hex_pairs :: "string \<Rightarrow> byte list" where
  "spec_hex_pairs (hi # lo # rest) =
     of_nat (16 * the (spec_hex_digit hi) + the (spec_hex_digit lo)) # spec_hex_pairs rest"
| "spec_hex_pairs _ = []"

definition spec_hex_bytes :: "string \<Rightarrow> byte list" where
  "spec_hex_bytes s = spec_hex_pairs (spec_strip_0x s)"

text \<open>
  The big-endian encoding of an integer on \<open>k\<close> bytes, the least significant byte last,
  and the number a byte string denotes when read big-endian.
\<close>

fun spec_be_bytes :: "nat \<Rightarrow> int \<Rightarrow> byte list" where
  "spec_be_bytes 0 v = []"
| "spec_be_bytes (Suc k) v = spec_be_bytes k (v div 256) @ [word_of_int (v mod 256)]"

definition be_value :: "byte list \<Rightarrow> int" where
  "be_value bs = foldl (\<lambda>acc b. acc * 256 + uint b) 0 bs"

definition is_uint256 :: "int \<Rightarrow> bool" where
  "is_uint256 v = (0 \<le> v \<and> v < 2 ^ 256)"

definition spec_preimage :: "string \<Rightarrow> string \<Rightarrow> int \<Rightarrow> int \<Rightarrow> byte list" where
  "spec_preimage secret nullifier assetId amount =
     spec_hex_bytes secret @ spec_hex_bytes nullifier
       @ spec_be_bytes 32 assetId @ spec_be_bytes 32 amount"

subsection \<open>Values of parsed JSON\<close>

text \<open>
  The value \<^verbatim>\<open>response.json()\<close> resolves to, untyped as it is at run time: the
  interfaces of the source are erased and the client checks no shape. \<open>JUndefined\<close> is
  what reading a missing property gives. Numbers are those whose value is an integer; an
  object is the list of its members, each key once.
\<close>

datatype json =
    JUndefined
  | JNull
  | JBool bool
  | JNum int
  | JStr string
  | JArr "json list"
  | JObj "(string \<times> json) list"

text \<open>
  Reading a property, \<^verbatim>\<open>data.k\<close>, for the names the source reads (\<^verbatim>\<open>success\<close>,
  \<^verbatim>\<open>error\<close>, \<^verbatim>\<open>merkleProof\<close>, \<^verbatim>\<open>root\<close>, \<^verbatim>\<open>exists\<close>, \<^verbatim>\<open>index\<close>): a
  \<^verbatim>\<open>TypeError\<close> on \<^verbatim>\<open>null\<close> and \<^verbatim>\<open>undefined\<close>, the member of an object if it
  has one, \<^verbatim>\<open>undefined\<close> otherwise.
\<close>

fun get_prop :: "json \<Rightarrow> string \<Rightarrow> js_exn + json" where
  "get_prop JNull k =
     Inl (Error (''Cannot read properties of null (reading '' @ [CHR 0x27] @ k @ [CHR 0x27] @ '')''))"
| "get_prop JUndefined k =
     Inl (Error (''Cannot read properties of undefined (reading '' @ [CHR 0x27] @ k @ [CHR 0x27] @ '')''))"
| "get_prop (JObj members) k = Inr (case map_of members k of None \<Rightarrow> JUndefined | Some v \<Rightarrow> v)"
| "get_prop _ k = Inr JUndefined"

text \<open>Truthiness, as \<^verbatim>\<open>!data.success\<close> tests it.\<close>

fun truthy :: "json \<Rightarrow> bool" where
  "truthy JUndefined = False"
| "truthy JNull = False"
| "truthy (JBool b) = b"
| "truthy (JNum n) = (n \<noteq> 0)"
| "truthy (JStr s) = (s \<noteq> [])"
| "truthy (JArr _) = True"
| "truthy (JObj _) = True"

text \<open>
  The text of a number. \<open>JNum n\<close> is the number written \<open>n\<close> in the JSON text;
  JavaScript holds the nearest double (ties to the even significand), and a template
  literal prints that double as the standard's \<^verbatim>\<open>Number::toString\<close> does: the
  shortest decimal digits that read back as the same double, the closest such when there
  are several, followed by zeros up to 21 digits and in exponent form beyond. A magnitude
  of \<open>2\<^sup>1\<^sup>0\<^sup>2\<^sup>4\<close> or more is \<^verbatim>\<open>Infinity\<close>.
\<close>

text \<open>Decimal digits of an integer that is not negative.\<close>

function decimal :: "int \<Rightarrow> string" where
  "decimal n =
     (if n < 10 then [char_of (48 + n)] else decimal (n div 10) @ [char_of (48 + n mod 10)])"
  by pat_completeness auto
termination
  by (relation "measure nat") auto

text \<open>The number of binary digits of a positive integer.\<close>

function bit_length :: "int \<Rightarrow> nat" where
  "bit_length n = (if n \<le> 0 then 0 else Suc (bit_length (n div 2)))"
  by pat_completeness auto
termination
  by (relation "measure nat") auto

text \<open>The double nearest to an integer that is not negative, as an integer.\<close>

definition round_to_double :: "int \<Rightarrow> int" where
  "round_to_double y =
     (if y < 2 ^ 53 then y
      else let e = bit_length y - 53; q = y div 2 ^ e; r = y mod 2 ^ e; half = 2 ^ (e - 1)
           in (if r > half \<or> (r = half \<and> odd q) then q + 1 else q) * 2 ^ e)"

text \<open>
  The shortest digits for a double \<open>x\<close>: the coarsest power of ten \<open>10\<^sup>j\<close> with a
  multiple next to \<open>x\<close> that reads back as \<open>x\<close>, tried from \<open>j\<close> downwards; the
  result is that multiple's quotient by \<open>10\<^sup>j\<close>, and \<open>j\<close>.
\<close>

fun shortest_digits :: "int \<Rightarrow> nat \<Rightarrow> int \<times> nat" where
  "shortest_digits x 0 = (x, 0)"
| "shortest_digits x (Suc j) =
     (let scale = 10 ^ Suc j; lo = (x div scale) * scale; hi = lo + scale;
          ok_lo = (0 < lo \<and> round_to_double lo = x); ok_hi = (round_to_double hi = x)
      in if ok_lo \<and> ok_hi then
           (if x - lo < hi - x then (lo div scale, Suc j)
            else if hi - x < x - lo then (hi div scale, Suc j)
            else if even (lo div scale) then (lo div scale, Suc j) else (hi div scale, Suc j))
         else if ok_lo then (lo div scale, Suc j)
         else if ok_hi then (hi div scale, Suc j)
         else shortest_digits x j)"

definition double_to_string :: "int \<Rightarrow> string" where
  "double_to_string x =
     (if 2 ^ 1024 \<le> x then ''Infinity''
      else case shortest_digits x (length (decimal x)) of
        (s, j) \<Rightarrow>
          (let ds = decimal s; k = length ds; n = k + j
           in if n \<le> 21 then ds @ replicate j (CHR ''0'')
              else (if k = 1 then ds else hd ds # ''.'' @ tl ds) @ ''e+'' @ decimal (int n - 1)))"

definition number_to_string :: "int \<Rightarrow> string" where
  "number_to_string n =
     (if n = 0 then ''0''
      else (if n < 0 then ''-'' else []) @ double_to_string (round_to_double \<bar>n\<bar>))"

fun join_comma :: "string list \<Rightarrow> string" where
  "join_comma [] = []"
| "join_comma [s] = s"
| "join_comma (s # t # rest) = s @ '','' @ join_comma (t # rest)"

text \<open>
  The text a template literal \<^verbatim>\<open>${v}\<close> inserts for a value. An array is its elements
  joined by commas, \<^verbatim>\<open>null\<close> and \<^verbatim>\<open>undefined\<close> elements as the empty text.
\<close>

fun to_string :: "json \<Rightarrow> string" where
  "to_string JUndefined = ''undefined''"
| "to_string JNull = ''null''"
| "to_string (JBool b) = (if b then ''true'' else ''false'')"
| "to_string (JNum n) = number_to_string n"
| "to_string (JStr s) = s"
| "to_string (JArr vs) =
     join_comma (map (\<lambda>v. if v = JNull \<or> v = JUndefined then [] else to_string v) vs)"
| "to_string (JObj _) = ''[object Object]''"

subsection \<open>The network\<close>

text \<open>
  A request as \<^verbatim>\<open>fetch\<close> is given it; the body is the value handed to
  \<^verbatim>\<open>JSON.stringify\<close>. Of a response the source reads \<^verbatim>\<open>ok\<close>, then either
  \<^verbatim>\<open>text()\<close> or \<^verbatim>\<open>json()\<close>, each of which may reject. What the source writes
  to the console is not part of the model.
\<close>

datatype http_method = GET | POST

record request =
  url :: string
  http_method :: http_method
  headers :: "(string \<times> string) list"
  body :: "json option"

record response =
  resp_ok :: bool
  resp_text :: "js_exn + string"
  resp_json :: "js_exn + json"

text \<open>\<^verbatim>\<open>fetch\<close> rejects (the network failed) or resolves to a response.\<close>

datatype fetch_result = Rejected js_exn | Resolved response

text \<open>
  The services behind \<^verbatim>\<open>fetch\<close> answer a request knowing every request sent
  before it; the state of the client's world is that list of requests, in the order
  they were sent.
\<close>

type_synonym server = "request list \<Rightarrow> request \<Rightarrow> fetch_result"

definition fetch :: "server \<Rightarrow> request \<Rightarrow> request list \<Rightarrow> fetch_result \<times> request list" where
  "fetch srv req log = (srv log req, log @ [req])"

text \<open>\<^verbatim>\<open>error instanceof Error ? error.message : String(error)\<close>.\<close>

fun message_of :: "js_exn \<Rightarrow> string" where
  "message_of (Error m) = m"
| "message_of (Thrown s) = s"

subsection \<open>getMerkleProof\<close>

definition proof_request :: "string \<Rightarrow> request" where
  "proof_request commitment =
     \<lparr>url = ''/api/getMerkleProof'', http_method = POST,
      headers = [(''Content-Type'', ''application/json'')],
      body = Some (JObj [(''commitment'', JStr commitment)])\<rparr>"

text \<open>
  The body of the \<^verbatim>\<open>try\<close> block, given what \<^verbatim>\<open>fetch\<close> produced; every
  \<^verbatim>\<open>throw\<close> and every rejected \<^verbatim>\<open>await\<close> in it is an \<open>Inl\<close>.
\<close>

definition proof_of_response :: "fetch_result \<Rightarrow> js_exn + json" where
  "proof_of_response r =
     (case r of
        Rejected e \<Rightarrow> Inl e
      | Resolved response \<Rightarrow>
          if \<not> resp_ok response then
            (case resp_text response of
               Inl e \<Rightarrow> Inl e
             | Inr errorText \<Rightarrow> Inl (Error (''Failed to get Merkle proof: '' @ errorText)))
          else
            (case resp_json response of
               Inl e \<Rightarrow> Inl e
             | Inr data \<Rightarrow>
                 (case get_prop data ''success'' of
                    Inl e \<Rightarrow> Inl e
                  | Inr success \<Rightarrow>
                      if \<not> truthy success then
                        (case get_prop data ''error'' of
                           Inl e \<Rightarrow> Inl e
                         | Inr err \<Rightarrow> Inl (Error (''API error: '' @ to_string err)))
                      else get_prop data ''merkleProof'')))"

text \<open>The \<^verbatim>\<open>catch\<close> block wraps whatever was thrown in a new \<^verbatim>\<open>Error\<close>.\<close>

definition getMerkleProof :: "server \<Rightarrow> string \<Rightarrow> request list \<Rightarrow> (js_exn + json) \<times> request list" where
  "getMerkleProof srv commitment log =
     (case fetch srv (proof_request commitment) log of
        (r, log') \<Rightarrow>
          (case proof_of_response r of
             Inl error \<Rightarrow> Inl (Error (''Could not retrieve Merkle proof: '' @ message_of error))
           | Inr merkleProof \<Rightarrow> Inr merkleProof,
           log'))"

subsection \<open>getCurrentRoot\<close>

definition root_request :: request where
  "root_request = \<lparr>url = ''/api/getContractRoot'', http_method = GET, headers = [], body = None\<rparr>"

definition root_of_response :: "fetch_result \<Rightarrow> js_exn + json" where
  "root_of_response r =
     (case r of
        Rejected e \<Rightarrow> Inl e
      | Resolved response \<Rightarrow>
          if \<not> resp_ok response then
            (case resp_text response of
               Inl e \<Rightarrow> Inl e
             | Inr errorText \<Rightarrow> Inl (Error (''Failed to get current root: '' @ errorText)))
          else
            (case resp_json response of
               Inl e \<Rightarrow> Inl e
             | Inr data \<Rightarrow>
                 (case get_prop data ''success'' of
                    Inl e \<Rightarrow> Inl e
                  | Inr success \<Rightarrow>
                      if \<not> truthy success then
                        (case get_prop data ''error'' of
                           Inl e \<Rightarrow> Inl e
                         | Inr err \<Rightarrow> Inl (Error (''API error: '' @ to_string err)))
                      else get_prop data ''root'')))"

definition getCurrentRoot :: "server \<Rightarrow> request list \<Rightarrow> (js_exn + json) \<times> request list" where
  "getCurrentRoot srv log =
     (case fetch srv root_request log of
        (r, log') \<Rightarrow>
          (case root_of_response r of
             Inl error \<Rightarrow> Inl (Error (''Could not retrieve current root: '' @ message_of error))
           | Inr root \<Rightarrow> Inr root,
           log'))"

subsection \<open>checkCommitmentExists\<close>

record existence =
  exists :: json
  index :: json

definition check_request :: "string \<Rightarrow> request" where
  "check_request commitment =
     \<lparr>url = ''/api/checkCommitment'', http_method = POST,
      headers = [(''Content-Type'', ''application/json'')],
      body = Some (JObj [(''commitment'', JStr commitment)])\<rparr>"

definition existence_of_response :: "fetch_result \<Rightarrow> js_exn + existence" where
  "existence_of_response r =
     (case r of
        Rejected e \<Rightarrow> Inl e
      | Resolved response \<Rightarrow>
          if \<not> resp_ok response then
            (case resp_text response of
               Inl e \<Rightarrow> Inl e
             | Inr errorText \<Rightarrow> Inl (Error (''Failed to check commitment: '' @ errorText)))
          else
            (case resp_json response of
               Inl e \<Rightarrow> Inl e
             | Inr data \<Rightarrow>
                 (case get_prop data ''success'' of
                    Inl e \<Rightarrow> Inl e
                  | Inr success \<Rightarrow>
                      if \<not> truthy success then
                        (case get_prop data ''error'' of
                           Inl e \<Rightarrow> Inl e
                         | Inr err \<Rightarrow> Inl (Error (''API error: '' @ to_string err)))
                      else
                        (case get_prop data ''exists'' of
                           Inl e \<Rightarrow> Inl e
                         | Inr ex \<Rightarrow>
                             (case get_prop data ''index'' of
                                Inl e \<Rightarrow> Inl e
                              | Inr ix \<Rightarrow> Inr \<lparr>exists = ex, index = ix\<rparr>)))))"

definition checkCommitmentExists ::
    "server \<Rightarrow> string \<Rightarrow> request list \<Rightarrow> (js_exn + existence) \<times> request list" where
  "checkCommitmentExists srv commitment log =
     (case fetch srv (check_request commitment) log of
        (r, log') \<Rightarrow>
          (case existence_of_response r of
             Inl error \<Rightarrow> Inl (Error (''Could not check commitment: '' @ message_of error))
           | Inr e \<Rightarrow> Inr e,
           log'))"

subsection \<open>generateCommitmentAndProof\<close>

record withdrawal_inputs =
  commitment :: string
  merkleProof :: json
  root :: json

definition generateCommitmentAndProof ::
    "(byte list \<Rightarrow> string) \<Rightarrow> server \<Rightarrow> string \<Rightarrow> string \<Rightarrow> int \<Rightarrow> int \<Rightarrow> request list
       \<Rightarrow> (js_exn + withdrawal_inputs) \<times> request list" where
  "generateCommitmentAndProof keccak256 srv secret nullifier assetId amount log =
     (case calculateCommitment keccak256 secret nullifier assetId amount of
        Inl e \<Rightarrow> (Inl e, log)
      | Inr commitment' \<Rightarrow>
          (case getMerkleProof srv commitment' log of
             (Inl e, log1) \<Rightarrow> (Inl e, log1)
           | (Inr merkleProof', log1) \<Rightarrow>
               (case getCurrentRoot srv log1 of
                  (Inl e, log2) \<Rightarrow> (Inl e, log2)
                | (Inr root', log2) \<Rightarrow>
                    (Inr \<lparr>commitment = commitment', merkleProof = merkleProof', root = root'\<rparr>,
                     log2))))"

subsection \<open>The encoder with its arrays in a store\<close>

text \<open>
  The same two functions once more, \<^verbatim>\<open>hexToBytes\<close> and \<^verbatim>\<open>calculateCommitment\<close>,
  now run in a world: the requests sent so far and the store of every \<^verbatim>\<open>Uint8Array\<close>
  that exists, an array being known by its address, its place in the store. Each
  \<^verbatim>\<open>new Uint8Array\<close> adds an array of zeros to the store, each assignment to an element
  and each \<^verbatim>\<open>set\<close> changes the store, \<^verbatim>\<open>.length\<close> and \<^verbatim>\<open>keccak256\<close> read it. An
  address is always one that an allocation returned; an index outside an array is ignored
  by the assignment, as typed arrays do. Strings and \<^verbatim>\<open>bigint\<close> values cannot be
  changed and stay values.
\<close>

record world =
  sent :: "request list"
  arrays :: "byte list list"

definition alloc_Uint8Array :: "nat \<Rightarrow> world \<Rightarrow> nat \<times> world" where
  "alloc_Uint8Array n w = (length (arrays w), w\<lparr>arrays := arrays w @ [new_Uint8Array n]\<rparr>)"

definition length_of :: "nat \<Rightarrow> world \<Rightarrow> nat" where
  "length_of a w = length (arrays w ! a)"

definition store_byte :: "nat \<Rightarrow> nat \<Rightarrow> byte \<Rightarrow> world \<Rightarrow> world" where
  "store_byte a i v w = w\<lparr>arrays := (arrays w)[a := (arrays w ! a)[i := v]]\<rparr>"

definition set_from :: "nat \<Rightarrow> nat \<Rightarrow> nat \<Rightarrow> world \<Rightarrow> js_exn + world" where
  "set_from target source offset w =
     (case set_at (arrays w ! target) (arrays w ! source) offset of
        Inl e \<Rightarrow> Inl e
      | Inr updated \<Rightarrow> Inr (w\<lparr>arrays := (arrays w)[target := updated]\<rparr>))"

text \<open>
  \<^verbatim>\<open>hexToBytes\<close>, statement by statement; it returns the address of \<^verbatim>\<open>bytes\<close>.
\<close>

definition hexToBytes_run :: "string \<Rightarrow> world \<Rightarrow> nat \<times> world" where
  "hexToBytes_run hex0 w =
     (let hex = (if startsWith hex0 ''0x'' then substring_from hex0 2 else hex0)
      in case alloc_Uint8Array (length hex div 2) w of
        (bytes, w1) \<Rightarrow>
          (bytes,
           fold (\<lambda>i. store_byte bytes i (toUint8 (parseInt16 (substring hex (i * 2) (i * 2 + 2)))))
             [0 ..< length_of bytes w1] w1))"

text \<open>
  \<^verbatim>\<open>calculateCommitment\<close>, statement by statement. In the loop the element of
  \<^verbatim>\<open>assetIdBytes\<close> is stored before that of \<^verbatim>\<open>amountBytes\<close>; a \<^verbatim>\<open>set\<close> that
  throws ends the call in the world it was reached in.
\<close>

definition calculateCommitment_run ::
    "(byte list \<Rightarrow> 'h) \<Rightarrow> string \<Rightarrow> string \<Rightarrow> int \<Rightarrow> int \<Rightarrow> world \<Rightarrow> (js_exn + 'h) \<times> world" where
  "calculateCommitment_run keccak256 secret nullifier assetId amount w =
     (case hexToBytes_run secret w of (secretBytes, w1) \<Rightarrow>
      case hexToBytes_run nullifier w1 of (nullifierBytes, w2) \<Rightarrow>
      case alloc_Uint8Array 32 w2 of (assetIdBytes, w3) \<Rightarrow>
      case alloc_Uint8Array 32 w3 of (amountBytes, w4) \<Rightarrow>
      let w5 = fold (\<lambda>i w.
                 store_byte amountBytes (31 - i) (word_of_int (drop_bit (i * 8) amount AND 255))
                   (store_byte assetIdBytes (31 - i)
                      (word_of_int (drop_bit (i * 8) assetId AND 255)) w))
                 [0 ..< 32] w4
      in case alloc_Uint8Array
                (length_of secretBytes w5 + length_of nullifierBytes w5
                   + length_of assetIdBytes w5 + length_of amountBytes w5) w5 of
        (combined, w6) \<Rightarrow>
          (case set_from combined secretBytes 0 w6 of
             Inl e \<Rightarrow> (Inl e, w6)
           | Inr w7 \<Rightarrow>
          (case set_from combined nullifierBytes (length_of secretBytes w7) w7 of
             Inl e \<Rightarrow> (Inl e, w7)
           | Inr w8 \<Rightarrow>
          (case set_from combined assetIdBytes
                  (length_of secretBytes w8 + length_of nullifierBytes w8) w8 of
             Inl e \<Rightarrow> (Inl e, w8)
           | Inr w9 \<Rightarrow>
          (case set_from combined amountBytes
                  (length_of secretBytes w9 + length_of nullifierBytes w9
                     + length_of assetIdBytes w9) w9 of
             Inl e \<Rightarrow> (Inl e, w9)
           | Inr w10 \<Rightarrow> (Inr (keccak256 (arrays w10 ! combined)), w10))))))"

subsection \<open>Properties read off the specification\<close>

text \<open>The length invariant of a Merkle proof: both members are arrays of one length.\<close>

definition lengths_agree :: "json \<Rightarrow> bool" where
  "lengths_agree p =
     (case (get_prop p ''siblings'', get_prop p ''pathIndices'') of
        (Inr (JArr siblings), Inr (JArr pathIndices)) \<Rightarrow> length siblings = length pathIndices
      | _ \<Rightarrow> False)"


subsection \<open>Stand-ins for the hash in examples\<close>

text \<open>
  Examples need a concrete function in the place of \<^verbatim>\<open>keccak256\<close>. \<open>identity_digest\<close>
  returns its input and so is collision-free; \<open>xor_digest\<close> folds the input into one
  byte and prints it the way viem prints a hash, \<^verbatim>\<open>0x\<close> and lower-case digits.
\<close>

definition identity_digest :: "byte list \<Rightarrow> byte list" where
  "identity_digest bs = bs"

definition hex_digit_char :: "nat \<Rightarrow> char" where
  "hex_digit_char d = ''0123456789abcdef'' ! (d mod 16)"

definition xor_digest :: "byte list \<Rightarrow> string" where
  "xor_digest bs =
     (let b = fold (XOR) bs 0 in ''0x'' @ [hex_digit_char (unat b div 16), hex_digit_char (unat b mod 16)])"

subsection \<open>Services and worlds used in examples\<close>

text \<open>
  \<open>example_service\<close> answers a proof request with a proof of depth one and a root
  request with a root that depends on what was sent before it: \<^verbatim>\<open>0x0a\<close> when
  nothing was, \<^verbatim>\<open>0x0b\<close> afterwards. The others fail, each in one way:
  \<open>unreachable_service\<close> is a network that is down, \<open>failing_service\<close> answers with a
  status that is not a success, \<open>refusing_service\<close> answers \<^verbatim>\<open>success: false\<close>,
  \<open>mismatched_service\<close> serves a proof with two siblings and one path index, and
  \<open>misleading_network\<close> is a network failure whose message reads like a refusal.
\<close>

definition example_service :: server where
  "example_service log req =
     (if req = root_request then
        Resolved \<lparr>resp_ok = True, resp_text = Inr [],
                  resp_json = Inr (JObj [(''success'', JBool True),
                    (''root'', JStr (if log = [] then ''0x0a'' else ''0x0b''))])\<rparr>
      else
        Resolved \<lparr>resp_ok = True, resp_text = Inr [],
                  resp_json = Inr (JObj [(''success'', JBool True),
                    (''merkleProof'', JObj [(''siblings'', JArr [JStr ''0x0c'']),
                                            (''pathIndices'', JArr [JNum 1])])])\<rparr>)"




definition mismatched_service :: server where
  "mismatched_service log req =
     Resolved \<lparr>resp_ok = True, resp_text = Inr [],
               resp_json = Inr (JObj [(''success'', JBool True),
                 (''merkleProof'', JObj [(''siblings'', JArr [JStr ''0x0c'', JStr ''0x0d'']),
                                         (''pathIndices'', JArr [JNum 1])])])\<rparr>"


text \<open>
  Two worlds: one in which nothing has happened, one with a request sent and two arrays
  in the store.
\<close>

definition quiet_world :: world where
  "quiet_world = \<lparr>sent = [], arrays = []\<rparr>"

definition busy_world :: world where
  "busy_world = \<lparr>sent = [root_request], arrays = [[7, 7], [255]]\<rparr>"

section \<open>Auxiliary facts\<close>

subsection \<open>Loops that store into an array\<close>

lemma length_fold_update:
  "length (fold (\<lambda>i ys. ys[p i := f i]) is ys) = length ys"
  by (induction "is" arbitrary: ys) simp_all

lemma nth_fold_update_other:
  "j \<notin> p ` set is \<Longrightarrow> fold (\<lambda>i ys. ys[p i := f i]) is ys ! j = ys ! j"
  by (induction "is" arbitrary: ys) auto

lemma nth_fold_update:
  "inj_on p (set is) \<Longrightarrow> distinct is \<Longrightarrow> i \<in> set is \<Longrightarrow> p i < length ys \<Longrightarrow>
     fold (\<lambda>i ys. ys[p i := f i]) is ys ! p i = f i"
proof (induction "is" arbitrary: ys)
  case Nil
  then show ?case by simp
next
  case (Cons a as)
  show ?case
  proof (cases "i = a")
    case True
    have "p a \<notin> p ` set as"
      using Cons.prems(1,2) by (auto simp: inj_on_def)
    then show ?thesis
      using Cons.prems(4) True by (simp add: nth_fold_update_other)
  next
    case False
    then show ?thesis
      using Cons by (auto simp: inj_on_def)
  qed
qed

lemma fold_update_forward:
  assumes "length xs = n"
  shows "fold (\<lambda>i ys. ys[i := f i]) [0 ..< n] xs = map f [0 ..< n]"
proof (rule nth_equalityI)
  show "length (fold (\<lambda>i ys. ys[i := f i]) [0 ..< n] xs) = length (map f [0 ..< n])"
    using assms length_fold_update [of "\<lambda>i. i" f "[0 ..< n]" xs] by simp
next
  fix j assume "j < length (fold (\<lambda>i ys. ys[i := f i]) [0 ..< n] xs)"
  then have j: "j < n"
    using assms length_fold_update [of "\<lambda>i. i" f "[0 ..< n]" xs] by simp
  then show "fold (\<lambda>i ys. ys[i := f i]) [0 ..< n] xs ! j = map f [0 ..< n] ! j"
    using assms nth_fold_update [of "\<lambda>i. i" "[0 ..< n]" j xs f] by simp
qed

subsection \<open>Big-endian bytes of an integer\<close>

lemma int_byte_shift: "drop_bit (i * 8) (v::int) AND 255 = (v div 256 ^ i) mod 256"
proof -
  have "(255::int) = mask 8" by (simp add: mask_eq_exp_minus_1)
  then have "drop_bit (i * 8) v AND 255 = take_bit 8 (drop_bit (i * 8) v)"
    by (simp add: take_bit_eq_mask)
  also have "\<dots> = (v div 2 ^ (i * 8)) mod 2 ^ 8"
    by (simp add: take_bit_eq_mod drop_bit_eq_div)
  also have "(2::int) ^ (i * 8) = (2 ^ 8) ^ i"
    by (metis mult.commute power_mult)
  finally show ?thesis by simp
qed

lemma length_spec_be_bytes: "length (spec_be_bytes k v) = k"
  by (induction k arbitrary: v) simp_all

lemma nth_spec_be_bytes:
  "j < k \<Longrightarrow> spec_be_bytes k v ! j = word_of_int ((v div 256 ^ (k - 1 - j)) mod 256)"
proof (induction k arbitrary: v j)
  case 0
  then show ?case by simp
next
  case (Suc k)
  show ?case
  proof (cases "j < k")
    case True
    then have "spec_be_bytes (Suc k) v ! j = spec_be_bytes k (v div 256) ! j"
      by (simp add: nth_append length_spec_be_bytes)
    also have "\<dots> = word_of_int (((v div 256) div 256 ^ (k - 1 - j)) mod 256)"
      using True by (rule Suc.IH)
    also have "(v div 256) div 256 ^ (k - 1 - j) = v div (256 * 256 ^ (k - 1 - j))"
      by (simp add: zdiv_zmult2_eq)
    also have "(256::int) * 256 ^ (k - 1 - j) = 256 ^ (Suc k - 1 - j)"
      using True by (simp add: Suc_diff_Suc flip: power_Suc)
    finally show ?thesis .
  next
    case False
    with Suc.prems have "j = k" by simp
    then show ?thesis
      by (simp add: nth_append length_spec_be_bytes)
  qed
qed

lemma fold_update_backward:
  assumes "length xs = 32"
  shows "fold (\<lambda>i ys. ys[31 - i := word_of_int (drop_bit (i * 8) v AND 255)]) [0 ..< 32] xs
           = spec_be_bytes 32 v"
    (is "?L = _")
proof (rule nth_equalityI)
  show len: "length ?L = length (spec_be_bytes 32 v)"
    using assms
      length_fold_update [of "\<lambda>i. 31 - i" "\<lambda>i. word_of_int (drop_bit (i * 8) v AND 255)"
        "[0 ..< 32]" xs]
    by (simp add: length_spec_be_bytes)
  fix j assume "j < length ?L"
  then have j: "j < 32" using len by (simp add: length_spec_be_bytes)
  have inj: "inj_on (\<lambda>i::nat. 31 - i) (set [0 ..< 32])"
    by (auto simp: inj_on_def)
  have "?L ! (31 - (31 - j)) = word_of_int (drop_bit ((31 - j) * 8) v AND 255)"
    using j assms
    by (intro nth_fold_update [of "\<lambda>i. 31 - i" "[0 ..< 32]" "31 - j" xs, OF inj]) auto
  moreover have "31 - (31 - j) = j" using j by simp
  ultimately show "?L ! j = spec_be_bytes 32 v ! j"
    using j by (simp add: int_byte_shift nth_spec_be_bytes)
qed

lemma fold_fill_step:
  "fold (fill_step a m) is (xs, ys) =
     (fold (\<lambda>i ys. ys[31 - i := word_of_int (drop_bit (i * 8) a AND 255)]) is xs,
      fold (\<lambda>i ys. ys[31 - i := word_of_int (drop_bit (i * 8) m AND 255)]) is ys)"
  by (induction "is" arbitrary: xs ys) (simp_all add: fill_step_def)

lemma div256: "0 \<le> (v::int) \<Longrightarrow> v < 256 ^ Suc k \<Longrightarrow> 0 \<le> v div 256 \<and> v div 256 < 256 ^ k"
proof -
  assume a: "0 \<le> v" "v < 256 ^ Suc k"
  have "v = 256 * (v div 256) + v mod 256" by simp
  moreover have "0 \<le> v mod 256" by simp
  ultimately have "256 * (v div 256) < 256 * 256 ^ k" using a by simp
  then have "v div 256 < 256 ^ k" by simp
  moreover have "0 \<le> v div 256" using a by simp
  ultimately show ?thesis by simp
qed

lemma be_value_snoc: "be_value (bs @ [b]) = be_value bs * 256 + uint b"
  by (simp add: be_value_def)

lemma be_value_spec_be_bytes:
  "0 \<le> v \<Longrightarrow> v < 256 ^ k \<Longrightarrow> be_value (spec_be_bytes k v) = v"
proof (induction k arbitrary: v)
  case 0
  then show ?case by (simp add: be_value_def)
next
  case (Suc k)
  have "0 \<le> v div 256 \<and> v div 256 < 256 ^ k"
    using Suc.prems by (rule div256)
  then have "be_value (spec_be_bytes k (v div 256)) = v div 256"
    by (simp add: Suc.IH)
  moreover have "uint (word_of_int (v mod 256) :: byte) = v mod 256"
    by (simp add: uint_word_of_int take_bit_eq_mod)
  ultimately show ?case
    by (simp add: be_value_snoc)
qed

lemma be_value_uint256: "is_uint256 v \<Longrightarrow> be_value (spec_be_bytes 32 v) = v"
proof -
  assume "is_uint256 v"
  then have "0 \<le> v" and "v < 256 ^ 32"
    by (simp_all add: is_uint256_def)
  then show ?thesis by (rule be_value_spec_be_bytes)
qed

lemma spec_be_bytes_inj:
  assumes "is_uint256 v" and "is_uint256 w" and "spec_be_bytes 32 v = spec_be_bytes 32 w"
  shows "v = w"
proof -
  have "v = be_value (spec_be_bytes 32 v)"
    by (simp only: be_value_uint256 [OF assms(1)])
  also have "\<dots> = be_value (spec_be_bytes 32 w)"
    by (simp only: assms(3))
  also have "\<dots> = w"
    by (simp only: be_value_uint256 [OF assms(2)])
  finally show ?thesis .
qed

subsection \<open>Hexadecimal text\<close>

lemma hex_table:
  "zip ''0123456789abcdef'' [0 ..< 16] @ zip ''ABCDEF'' [10 ..< 16] =
   [(CHR ''0'', 0), (CHR ''1'', 1), (CHR ''2'', 2), (CHR ''3'', 3), (CHR ''4'', 4),
    (CHR ''5'', 5), (CHR ''6'', 6), (CHR ''7'', 7), (CHR ''8'', 8), (CHR ''9'', 9),
    (CHR ''a'', 10), (CHR ''b'', 11), (CHR ''c'', 12), (CHR ''d'', 13), (CHR ''e'', 14),
    (CHR ''f'', 15), (CHR ''A'', 10), (CHR ''B'', 11), (CHR ''C'', 12), (CHR ''D'', 13),
    (CHR ''E'', 14), (CHR ''F'', 15 :: nat)]"
  by code_simp

lemma hex_char_cases:
  "is_hex_char c \<Longrightarrow> c \<in> set ''0123456789abcdefABCDEF''"
  unfolding is_hex_char_def spec_hex_digit_def hex_table
  by (auto split: if_splits)

lemma hex_digit_agree:
  assumes "is_hex_char c"
  shows "digit_of_char c = spec_hex_digit c" and "the (spec_hex_digit c) < 16"
    and "is_radix_digit 16 c" and "\<not> is_js_whitespace c"
    and "c \<noteq> CHR ''+''" and "c \<noteq> CHR ''-''" and "c \<noteq> CHR ''x''" and "c \<noteq> CHR ''X''"
  using hex_char_cases [OF assms]
  unfolding spec_hex_digit_def hex_table digit_of_char_def is_radix_digit_def is_js_whitespace_def
  by auto

lemma parse_pair:
  assumes "is_hex_char hi" and "is_hex_char lo"
  shows "toUint8 (parseInt16 [hi, lo])
           = of_nat (16 * the (spec_hex_digit hi) + the (spec_hex_digit lo))"
  using hex_digit_agree [OF assms(1)] hex_digit_agree [OF assms(2)]
  by (simp add: parseInt16_def toUint8_def digits_value_def Let_def)

lemma strip_alt: "spec_strip_0x s = (if take 2 s = ''0x'' then drop 2 s else s)"
  by (induction s rule: spec_strip_0x.induct) auto

lemma substring_le: "a \<le> b \<Longrightarrow> substring s a b = take (b - a) (drop a s)"
  by (auto simp: substring_def Let_def min_def max_def)

lemma js_strip_0x:
  "(if startsWith s ''0x'' then substring_from s 2 else s) = spec_strip_0x s"
proof (induction s rule: spec_strip_0x.induct)
  case (1 rest)
  then show ?case
    by (simp add: startsWith_def substring_from_def substring_le)
qed (auto simp: startsWith_def)

lemma hexToBytes_map:
  "hexToBytes s =
     map (\<lambda>i. toUint8 (parseInt16 (take 2 (drop (i * 2) (spec_strip_0x s)))))
       [0 ..< length (spec_strip_0x s) div 2]"
  unfolding hexToBytes_def js_strip_0x Let_def
  by (simp add: new_Uint8Array_def fold_update_forward substring_le)

lemma length_hexToBytes: "length (hexToBytes s) = length (spec_strip_0x s) div 2"
  by (simp add: hexToBytes_map)

lemma map_pairs_hex:
  "even (length h) \<Longrightarrow> list_all is_hex_char h \<Longrightarrow>
     map (\<lambda>i. toUint8 (parseInt16 (take 2 (drop (i * 2) h)))) [0 ..< length h div 2]
       = spec_hex_pairs h"
proof (induction h rule: spec_hex_pairs.induct)
  case (1 hi lo rest)
  have "map (\<lambda>i. toUint8 (parseInt16 (take 2 (drop (i * 2) (hi # lo # rest)))))
          [0 ..< Suc (length rest div 2)]
        = toUint8 (parseInt16 [hi, lo])
          # map (\<lambda>i. toUint8 (parseInt16 (take 2 (drop (i * 2) rest)))) [0 ..< length rest div 2]"
    by (simp add: map_upt_Suc del: upt_Suc)
  with 1 show ?case by (simp add: parse_pair del: upt_Suc)
qed simp_all

lemma hexToBytes_valid: "valid_hex s \<Longrightarrow> hexToBytes s = spec_hex_bytes s"
  by (simp add: valid_hex_def hexToBytes_map spec_hex_bytes_def map_pairs_hex)

lemma no_0x: "list_all is_hex_char h \<Longrightarrow> take 2 h \<noteq> ''0x''"
proof (cases h)
  case Nil
  then show ?thesis by simp
next
  case (Cons a t)
  assume hx: "list_all is_hex_char h"
  show ?thesis
  proof (cases t)
    case Nil
    with \<open>h = a # t\<close> show ?thesis by simp
  next
    case (Cons b rest)
    with \<open>h = a # t\<close> hx have "is_hex_char b" by simp
    then have "b \<noteq> CHR ''x''" by (rule hex_digit_agree(7))
    with Cons \<open>h = a # t\<close> show ?thesis by simp
  qed
qed

lemma hex_chars_no_prefix: "list_all is_hex_char h \<Longrightarrow> spec_strip_0x h = h"
  by (simp add: strip_alt no_0x)

lemma hexToBytes_prefix:
  "list_all is_hex_char h \<Longrightarrow> hexToBytes (''0x'' @ h) = hexToBytes h"
  by (simp add: hexToBytes_map hex_chars_no_prefix)

lemma strip_butlast:
  assumes "odd (length (spec_strip_0x s))"
  shows "spec_strip_0x (butlast s) = butlast (spec_strip_0x s)"
proof (cases s)
  case Nil
  with assms show ?thesis by simp
next
  case (Cons a t)
  show ?thesis
  proof (cases t)
    case Nil
    with \<open>s = a # t\<close> show ?thesis by (simp add: strip_alt)
  next
    case (Cons b rest)
    with \<open>s = a # t\<close> assms have "rest \<noteq> []"
      by (auto simp: strip_alt split: if_splits)
    with Cons \<open>s = a # t\<close> show ?thesis by (simp add: strip_alt)
  qed
qed

lemma pairs_butlast:
  assumes "odd (length h)"
  shows "map (\<lambda>i. toUint8 (parseInt16 (take 2 (drop (i * 2) (butlast h)))))
           [0 ..< length (butlast h) div 2]
         = map (\<lambda>i. toUint8 (parseInt16 (take 2 (drop (i * 2) h)))) [0 ..< length h div 2]"
proof -
  have "(length h - 1) div 2 = length h div 2"
    using assms by presburger
  then have len: "length (butlast h) div 2 = length h div 2"
    by simp
  have "take 2 (drop (i * 2) (butlast h)) = take 2 (drop (i * 2) h)"
    if "i < length h div 2" for i
  proof -
    have "i * 2 + 2 \<le> length h - 1" using that assms by presburger
    then show ?thesis
      by (simp add: butlast_conv_take drop_take min_def)
  qed
  then show ?thesis unfolding len by (intro map_cong) auto
qed

lemma hexToBytes_odd:
  assumes "odd (length (spec_strip_0x s))"
  shows "hexToBytes (butlast s) = hexToBytes s"
  by (simp only: hexToBytes_map strip_butlast [OF assms] pairs_butlast [OF assms])

subsection \<open>The encoder in closed form\<close>

lemma set_at_fits:
  "length pre = off \<Longrightarrow> length src \<le> length rest \<Longrightarrow>
     set_at (pre @ rest) src off = Inr (pre @ src @ drop (length src) rest)"
  by (simp add: set_at_def)

lemma calculateCommitment_closed:
  "calculateCommitment H s n a m =
     Inr (H (hexToBytes s @ hexToBytes n @ spec_be_bytes 32 a @ spec_be_bytes 32 m))"
proof -
  let ?sb = "hexToBytes s" and ?nb = "hexToBytes n"
  let ?ab = "spec_be_bytes 32 a" and ?mb = "spec_be_bytes 32 m"
  have fill: "fold (fill_step a m) [0 ..< 32] (replicate 32 0, replicate 32 0) = (?ab, ?mb)"
    by (simp only: fold_fill_step fold_update_backward length_replicate)
  have s1: "set_at (replicate (length ?sb + length ?nb + length ?ab + length ?mb) 0) ?sb 0
              = Inr (?sb @ replicate (length ?nb + 32 + 32) 0)"
    using set_at_fits [of "[]" 0 ?sb "replicate (length ?sb + length ?nb + 32 + 32) 0"]
    by (simp add: length_spec_be_bytes)
  have s2: "set_at (?sb @ replicate (length ?nb + 32 + 32) 0) ?nb (length ?sb)
              = Inr (?sb @ ?nb @ replicate (32 + 32) 0)"
    using set_at_fits [of ?sb "length ?sb" ?nb "replicate (length ?nb + 32 + 32) 0"]
    by simp
  have s3: "set_at (?sb @ ?nb @ replicate (32 + 32) 0) ?ab (length ?sb + length ?nb)
              = Inr (?sb @ ?nb @ ?ab @ replicate 32 0)"
    using set_at_fits [of "?sb @ ?nb" "length ?sb + length ?nb" ?ab "replicate (32 + 32) 0"]
    by (simp add: length_spec_be_bytes)
  have s4: "set_at (?sb @ ?nb @ ?ab @ replicate 32 0) ?mb
              (length ?sb + length ?nb + length ?ab)
              = Inr (?sb @ ?nb @ ?ab @ ?mb)"
    using set_at_fits [of "?sb @ ?nb @ ?ab" "length ?sb + length ?nb + 32" ?mb "replicate 32 0"]
    by (simp add: length_spec_be_bytes)
  show ?thesis
    by (simp only: calculateCommitment_def Let_def new_Uint8Array_def fill prod.case
          s1 s2 s3 s4 sum.case)
qed

lemma preimage_tail:
  assumes "xs @ ab1 @ mb1 = ys @ ab2 @ (mb2 :: 'a list)"
    and "length ab1 = length ab2" and "length mb1 = length mb2"
  shows "xs = ys \<and> ab1 = ab2 \<and> mb1 = mb2"
proof -
  have "length (xs @ ab1 @ mb1) = length (ys @ ab2 @ mb2)"
    by (simp only: assms(1))
  with assms(2,3) have l: "length xs = length ys"
    by simp
  with assms(1) have "xs = ys" and r: "ab1 @ mb1 = ab2 @ mb2"
    by simp_all
  moreover from r assms(2) have "ab1 = ab2" and "mb1 = mb2"
    by simp_all
  ultimately show ?thesis by simp
qed

lemma calculateCommitment_valid:
  assumes "valid_hex secret" and "valid_hex nullifier"
  shows "calculateCommitment keccak256 secret nullifier assetId amount
           = Inr (keccak256 (spec_preimage secret nullifier assetId amount))"
  by (simp only: calculateCommitment_closed hexToBytes_valid [OF assms(1)]
        hexToBytes_valid [OF assms(2)] spec_preimage_def)

lemma inj_identity_digest: "inj identity_digest"
  by (simp add: inj_def identity_digest_def)

subsection \<open>The encoder in a store\<close>

lemma store_fold:
  "a < length (arrays w) \<Longrightarrow>
     fold (\<lambda>i. store_byte a (p i) (f i)) is w
       = w\<lparr>arrays := (arrays w)[a := fold (\<lambda>i ys. ys[p i := f i]) is (arrays w ! a)]\<rparr>"
  by (induction "is" arbitrary: w) (simp_all add: store_byte_def)

lemma hexToBytes_run_eq:
  "hexToBytes_run s w = (length (arrays w), w\<lparr>arrays := arrays w @ [hexToBytes s]\<rparr>)"
  by (simp add: hexToBytes_run_def hexToBytes_def alloc_Uint8Array_def length_of_def
        store_fold Let_def new_Uint8Array_def)

lemma fill_fold:
  "b < length (arrays w) \<Longrightarrow> c < length (arrays w) \<Longrightarrow> b \<noteq> c \<Longrightarrow>
     fold (\<lambda>i w. store_byte c (p i) (g i) (store_byte b (p i) (f i) w)) is w
       = w\<lparr>arrays := (arrays w)
            [b := fold (\<lambda>i ys. ys[p i := f i]) is (arrays w ! b),
             c := fold (\<lambda>i ys. ys[p i := g i]) is (arrays w ! c)]\<rparr>"
proof (induction "is" arbitrary: w)
  case Nil
  then show ?case by simp
next
  case (Cons x xs)
  let ?w = "store_byte c (p x) (g x) (store_byte b (p x) (f x) w)"
  have l: "b < length (arrays ?w)" "c < length (arrays ?w)"
    using Cons.prems by (simp_all add: store_byte_def)
  have nb: "arrays ?w ! b = (arrays w ! b)[p x := f x]"
    and nc: "arrays ?w ! c = (arrays w ! c)[p x := g x]"
    using Cons.prems by (simp_all add: store_byte_def)
  show ?case
    using Cons.prems
    by (simp add: Cons.IH [OF l Cons.prems(3)] nb nc)
       (simp add: store_byte_def list_update_swap [of b c])
qed


lemma nth_after: "k < length xs \<Longrightarrow> (B @ xs) ! (length B + k) = xs ! k"
  by simp

lemma update_after: "(B @ xs)[length B + k := v] = B @ xs[k := v]"
  by (simp add: list_update_append)

lemma alloc_eq:
  "alloc_Uint8Array n (w\<lparr>arrays := B @ xs\<rparr>)
     = (length B + length xs, w\<lparr>arrays := B @ (xs @ [replicate n 0])\<rparr>)"
  by (simp add: alloc_Uint8Array_def new_Uint8Array_def)

lemma set_from_eq:
  assumes "t < length xs" and "s < length xs"
    and "set_at (xs ! t) (xs ! s) off = Inr u"
  shows "set_from (length B + t) (length B + s) off (w\<lparr>arrays := B @ xs\<rparr>)
           = Inr (w\<lparr>arrays := B @ xs[t := u]\<rparr>)"
  using assms by (simp add: set_from_def update_after)

lemma length_of_eq:
  "k < length xs \<Longrightarrow> length_of (length B + k) (w\<lparr>arrays := B @ xs\<rparr>) = length (xs ! k)"
  by (simp add: length_of_def)

text \<open>
  Run in a world, the encoder returns what the encoder on values returns, and leaves the
  world with five more arrays: the bytes of the secret, of the nullifier, of assetId and
  of amount, and their concatenation.
\<close>

lemma calculateCommitment_run_eq:
  "calculateCommitment_run H s n a m w =
     (calculateCommitment H s n a m,
      w\<lparr>arrays := arrays w @
         [hexToBytes s, hexToBytes n, spec_be_bytes 32 a, spec_be_bytes 32 m,
          hexToBytes s @ hexToBytes n @ spec_be_bytes 32 a @ spec_be_bytes 32 m]\<rparr>)"
proof -
  let ?B = "arrays w" and ?sb = "hexToBytes s" and ?nb = "hexToBytes n"
  let ?ab = "spec_be_bytes 32 a" and ?mb = "spec_be_bytes 32 m"
  let ?N = "length ?sb + length ?nb + length ?ab + length ?mb"
  let ?W = "\<lambda>xs. w\<lparr>arrays := ?B @ xs\<rparr>"
  have h1: "hexToBytes_run s w = (length ?B + 0, ?W [?sb])"
    by (simp add: hexToBytes_run_eq)
  have h2: "hexToBytes_run n (?W [?sb]) = (length ?B + 1, ?W [?sb, ?nb])"
    by (simp add: hexToBytes_run_eq)
  have a3: "alloc_Uint8Array 32 (?W [?sb, ?nb]) = (length ?B + 2, ?W [?sb, ?nb, replicate 32 0])"
    using alloc_eq [where n = 32 and w = w and B = "?B" and xs = "[?sb, ?nb]"] by simp
  have a4: "alloc_Uint8Array 32 (?W [?sb, ?nb, replicate 32 0])
              = (length ?B + 3, ?W [?sb, ?nb, replicate 32 0, replicate 32 0])"
    using alloc_eq [where n = 32 and w = w and B = "?B" and xs = "[?sb, ?nb, replicate 32 0]"] by simp
  have f5: "fold (\<lambda>i w.
                 store_byte (length ?B + 3) (31 - i) (word_of_int (drop_bit (i * 8) m AND 255))
                   (store_byte (length ?B + 2) (31 - i)
                      (word_of_int (drop_bit (i * 8) a AND 255)) w))
                 [0 ..< 32] (?W [?sb, ?nb, replicate 32 0, replicate 32 0])
              = ?W [?sb, ?nb, ?ab, ?mb]"
    by (subst fill_fold)
       (simp_all add: nth_append fold_update_backward list_update_append)
  have a6: "alloc_Uint8Array ?N (?W [?sb, ?nb, ?ab, ?mb])
              = (length ?B + 4, ?W [?sb, ?nb, ?ab, ?mb, replicate ?N 0])"
    using alloc_eq [where n = "?N" and w = w and B = "?B" and xs = "[?sb, ?nb, ?ab, ?mb]"] by simp
  have l5: "length_of (length ?B + 0) (?W [?sb, ?nb, ?ab, ?mb]) = length ?sb"
    "length_of (length ?B + 1) (?W [?sb, ?nb, ?ab, ?mb]) = length ?nb"
    "length_of (length ?B + 2) (?W [?sb, ?nb, ?ab, ?mb]) = length ?ab"
    "length_of (length ?B + 3) (?W [?sb, ?nb, ?ab, ?mb]) = length ?mb"
    by (simp_all add: length_of_def nth_append)
  have s1: "set_at (replicate ?N 0) ?sb 0 = Inr (?sb @ replicate (length ?nb + 32 + 32) 0)"
    using set_at_fits [of "[]" 0 ?sb "replicate (length ?sb + length ?nb + 32 + 32) 0"]
    by (simp add: length_spec_be_bytes)
  have s2: "set_at (?sb @ replicate (length ?nb + 32 + 32) 0) ?nb (length ?sb)
              = Inr (?sb @ ?nb @ replicate (32 + 32) 0)"
    using set_at_fits [of ?sb "length ?sb" ?nb "replicate (length ?nb + 32 + 32) 0"]
    by simp
  have s3: "set_at (?sb @ ?nb @ replicate (32 + 32) 0) ?ab (length ?sb + length ?nb)
              = Inr (?sb @ ?nb @ ?ab @ replicate 32 0)"
    using set_at_fits [of "?sb @ ?nb" "length ?sb + length ?nb" ?ab "replicate (32 + 32) 0"]
    by (simp add: length_spec_be_bytes)
  have s4: "set_at (?sb @ ?nb @ ?ab @ replicate 32 0) ?mb
              (length ?sb + length ?nb + length ?ab)
              = Inr (?sb @ ?nb @ ?ab @ ?mb)"
    using set_at_fits [of "?sb @ ?nb @ ?ab" "length ?sb + length ?nb + 32" ?mb "replicate 32 0"]
    by (simp add: length_spec_be_bytes)
  have t1: "set_from (length ?B + 4) (length ?B + 0) 0 (?W [?sb, ?nb, ?ab, ?mb, replicate ?N 0])
              = Inr (?W [?sb, ?nb, ?ab, ?mb, ?sb @ replicate (length ?nb + 32 + 32) 0])"
    using set_from_eq [where t = 4 and xs = "[?sb, ?nb, ?ab, ?mb, replicate ?N 0]" and s = 0
        and off = 0 and B = "?B" and w = w] s1 by simp
  have t2: "set_from (length ?B + 4) (length ?B + 1) (length ?sb)
              (?W [?sb, ?nb, ?ab, ?mb, ?sb @ replicate (length ?nb + 32 + 32) 0])
              = Inr (?W [?sb, ?nb, ?ab, ?mb, ?sb @ ?nb @ replicate (32 + 32) 0])"
    using set_from_eq [where t = 4
        and xs = "[?sb, ?nb, ?ab, ?mb, ?sb @ replicate (length ?nb + 32 + 32) 0]"
        and s = 1 and off = "length ?sb" and B = "?B" and w = w] s2 by simp
  have t3: "set_from (length ?B + 4) (length ?B + 2) (length ?sb + length ?nb)
              (?W [?sb, ?nb, ?ab, ?mb, ?sb @ ?nb @ replicate (32 + 32) 0])
              = Inr (?W [?sb, ?nb, ?ab, ?mb, ?sb @ ?nb @ ?ab @ replicate 32 0])"
    using set_from_eq [where t = 4
        and xs = "[?sb, ?nb, ?ab, ?mb, ?sb @ ?nb @ replicate (32 + 32) 0]"
        and s = 2 and off = "length ?sb + length ?nb" and B = "?B" and w = w] s3 by simp
  have t4: "set_from (length ?B + 4) (length ?B + 3) (length ?sb + length ?nb + length ?ab)
              (?W [?sb, ?nb, ?ab, ?mb, ?sb @ ?nb @ ?ab @ replicate 32 0])
              = Inr (?W [?sb, ?nb, ?ab, ?mb, ?sb @ ?nb @ ?ab @ ?mb])"
    using set_from_eq [where t = 4
        and xs = "[?sb, ?nb, ?ab, ?mb, ?sb @ ?nb @ ?ab @ replicate 32 0]"
        and s = 3 and off = "length ?sb + length ?nb + length ?ab" and B = "?B" and w = w] s4
    by simp
  have l: "\<And>c. length_of (length ?B + 0) (?W [?sb, ?nb, ?ab, ?mb, c]) = length ?sb"
    "\<And>c. length_of (length ?B + 1) (?W [?sb, ?nb, ?ab, ?mb, c]) = length ?nb"
    "\<And>c. length_of (length ?B + 2) (?W [?sb, ?nb, ?ab, ?mb, c]) = length ?ab"
    by (simp_all add: length_of_def nth_append)
  have r: "arrays (?W [?sb, ?nb, ?ab, ?mb, ?sb @ ?nb @ ?ab @ ?mb]) ! (length ?B + 4)
             = ?sb @ ?nb @ ?ab @ ?mb"
    by (simp add: nth_append)
  show ?thesis
    by (simp only: calculateCommitment_run_def h1 h2 a3 a4 f5 a6 l5 l t1 t2 t3 t4 r
          prod.case sum.case Let_def calculateCommitment_closed)
qed

subsection \<open>The clients in closed form\<close>

lemma getMerkleProof_eq:
  "getMerkleProof srv c log =
     (case proof_of_response (srv log (proof_request c)) of
        Inl error \<Rightarrow> Inl (Error (''Could not retrieve Merkle proof: '' @ message_of error))
      | Inr p \<Rightarrow> Inr p,
      log @ [proof_request c])"
  by (simp add: getMerkleProof_def fetch_def)

lemma getCurrentRoot_eq:
  "getCurrentRoot srv log =
     (case root_of_response (srv log root_request) of
        Inl error \<Rightarrow> Inl (Error (''Could not retrieve current root: '' @ message_of error))
      | Inr r \<Rightarrow> Inr r,
      log @ [root_request])"
  by (simp add: getCurrentRoot_def fetch_def)

lemma generateCommitmentAndProof_eq:
  assumes "calculateCommitment keccak256 secret nullifier assetId amount = Inr c"
  shows "generateCommitmentAndProof keccak256 srv secret nullifier assetId amount log =
     (case proof_of_response (srv log (proof_request c)) of
        Inl error \<Rightarrow>
          (Inl (Error (''Could not retrieve Merkle proof: '' @ message_of error)),
           log @ [proof_request c])
      | Inr p \<Rightarrow>
          (case root_of_response (srv (log @ [proof_request c]) root_request) of
             Inl error \<Rightarrow>
               (Inl (Error (''Could not retrieve current root: '' @ message_of error)),
                log @ [proof_request c, root_request])
           | Inr r \<Rightarrow>
               (Inr \<lparr>commitment = c, merkleProof = p, root = r\<rparr>,
                log @ [proof_request c, root_request])))"
  by (simp add: generateCommitmentAndProof_def assms getMerkleProof_eq getCurrentRoot_eq
        split: sum.splits)

lemma example_commitment:
  "calculateCommitment xor_digest ''0x01'' ''0x02'' 1 1000000000000000000 = Inr ''0x29''"
proof -
  have "xor_digest (hexToBytes ''0x01'' @ hexToBytes ''0x02'' @ spec_be_bytes 32 1
          @ spec_be_bytes 32 1000000000000000000) = ''0x29''"
    by code_simp
  then show ?thesis
    by (simp only: calculateCommitment_closed)
qed

section \<open>The commitment encoder\<close>

text \<open>
  Claim C1. For a secret and a nullifier that are valid hexadecimal text and an assetId
  and an amount that are unsigned 256-bit integers, \<^verbatim>\<open>calculateCommitment\<close> returns
  exactly the hash of the concatenation of the decoded bytes of the secret, the decoded
  bytes of the nullifier, and the 32-byte big-endian encodings of assetId and of amount.
  The decoding and the encoding are the specification's (\<open>spec_hex_bytes\<close>,
  \<open>spec_be_bytes\<close>), not the loops of the source; each encoding has 32 bytes and reads
  back big-endian as the integer.
\<close>

theorem calculateCommitment_keccak_of_preimage:
  assumes "valid_hex secret" and "valid_hex nullifier"
    and "is_uint256 assetId" and "is_uint256 amount"
  shows "calculateCommitment keccak256 secret nullifier assetId amount
           = Inr (keccak256 (spec_hex_bytes secret @ spec_hex_bytes nullifier
                              @ spec_be_bytes 32 assetId @ spec_be_bytes 32 amount))
         \<and> length (spec_be_bytes 32 assetId) = 32 \<and> be_value (spec_be_bytes 32 assetId) = assetId
         \<and> length (spec_be_bytes 32 amount) = 32 \<and> be_value (spec_be_bytes 32 amount) = amount"
  using calculateCommitment_valid [OF assms(1,2), of keccak256 assetId amount]
    be_value_uint256 [OF assms(3)] be_value_uint256 [OF assms(4)]
  by (simp only: spec_preimage_def length_spec_be_bytes simp_thms)

text \<open>
  The specification's example vector, with the identity in the place of the hash so that
  the preimage shows.
\<close>

theorem calculateCommitment_keccak_of_preimage_witness:
  "valid_hex ''0x01'' \<and> valid_hex ''0x02'' \<and> is_uint256 1 \<and> is_uint256 1000000000000000000
   \<and> calculateCommitment identity_digest ''0x01'' ''0x02'' 1 1000000000000000000
       = Inr ([1, 2] @ replicate 31 0 @ [1] @ replicate 24 0 @ [13, 224, 182, 179, 167, 100, 0, 0])"
proof -
  have v: "valid_hex ''0x01''" "valid_hex ''0x02''"
    by code_simp+
  have u: "is_uint256 1" "is_uint256 1000000000000000000"
    by (simp_all add: is_uint256_def)
  have p: "spec_hex_bytes ''0x01'' @ spec_hex_bytes ''0x02''
             @ spec_be_bytes 32 1 @ spec_be_bytes 32 1000000000000000000
           = [1, 2] @ replicate 31 0 @ [1] @ replicate 24 0 @ [13, 224, 182, 179, 167, 100, 0, 0]"
    by code_simp
  from calculateCommitment_keccak_of_preimage [OF v u, of identity_digest]
  have "calculateCommitment identity_digest ''0x01'' ''0x02'' 1 1000000000000000000
          = Inr (identity_digest (spec_hex_bytes ''0x01'' @ spec_hex_bytes ''0x02''
             @ spec_be_bytes 32 1 @ spec_be_bytes 32 1000000000000000000))"
    by (rule conjunct1)
  with v u show ?thesis
    by (simp only: p identity_digest_def simp_thms)
qed

text \<open>
  Claim C2, as stated, fails: \<^verbatim>\<open>hexToBytes\<close> checks nothing. The secret
  \<^verbatim>\<open>0xabc\<close> has odd length, and the call returns the commitment of the byte
  \<open>0xab\<close>; the nullifier \<^verbatim>\<open>zz\<close> has no hexadecimal digit, and the call returns the
  commitment of the byte \<open>0x00\<close>.
\<close>

theorem calculateCommitment_malformed_hex_counterexample:
  "\<not> valid_hex ''0xabc''
   \<and> calculateCommitment identity_digest ''0xabc'' ''0x02'' 1 1
       = Inr ([171, 2] @ replicate 31 0 @ [1] @ replicate 31 0 @ [1])
   \<and> \<not> valid_hex ''zz''
   \<and> calculateCommitment identity_digest ''0x01'' ''zz'' 1 1
       = Inr ([1, 0] @ replicate 31 0 @ [1] @ replicate 31 0 @ [1])"
proof -
  have "\<not> valid_hex ''0xabc''" and "\<not> valid_hex ''zz''"
    by code_simp+
  moreover have "hexToBytes ''0xabc'' = [171]" and "hexToBytes ''zz'' = [0]"
    and "hexToBytes ''0x01'' = [1]" and "hexToBytes ''0x02'' = [2]"
    and "spec_be_bytes 32 1 = replicate 31 0 @ [1]"
    by code_simp+
  ultimately show ?thesis
    by (simp only: calculateCommitment_closed identity_digest_def append.simps append_assoc
          simp_thms)
qed

text \<open>
  Claim C2, amended. \<^verbatim>\<open>calculateCommitment\<close> never fails: for every secret and
  nullifier, malformed or not, it returns a commitment; hexadecimal text of odd length
  yields the commitment of the same text without its last character.
\<close>

theorem calculateCommitment_accepts_malformed_hex:
  "(\<exists>c. calculateCommitment keccak256 secret nullifier assetId amount = Inr c)
   \<and> (odd (length (spec_strip_0x secret)) \<longrightarrow>
        calculateCommitment keccak256 secret nullifier assetId amount
          = calculateCommitment keccak256 (butlast secret) nullifier assetId amount)
   \<and> (odd (length (spec_strip_0x nullifier)) \<longrightarrow>
        calculateCommitment keccak256 secret nullifier assetId amount
          = calculateCommitment keccak256 secret (butlast nullifier) assetId amount)"
  by (simp add: calculateCommitment_closed hexToBytes_odd)

theorem calculateCommitment_accepts_malformed_hex_witness:
  "odd (length (spec_strip_0x ''0xabc'')) \<and> odd (length (spec_strip_0x ''0x0''))
   \<and> calculateCommitment identity_digest ''0xabc'' ''0x0'' 1 1
       = calculateCommitment identity_digest ''0xab'' ''0x0'' 1 1
   \<and> calculateCommitment identity_digest ''0xabc'' ''0x0'' 1 1
       = calculateCommitment identity_digest ''0xabc'' ''0x'' 1 1"
proof -
  have o: "odd (length (spec_strip_0x ''0xabc''))" "odd (length (spec_strip_0x ''0x0''))"
    by code_simp+
  have b: "butlast ''0xabc'' = ''0xab''" "butlast ''0x0'' = ''0x''"
    by simp_all
  from calculateCommitment_accepts_malformed_hex [of identity_digest "''0xabc''" "''0x0''" 1 1] o
  show ?thesis
    unfolding b by blast
qed

text \<open>
  Claim C3, as stated, fails: the byte strings of secret and nullifier are concatenated
  with nothing between them, so moving a byte from the end of the secret to the start of
  the nullifier leaves the preimage, and with it the commitment, unchanged, whatever the
  hash.
\<close>

theorem calculateCommitment_distinct_tuples_counterexample:
  "valid_hex ''0x0102'' \<and> valid_hex ''0x03'' \<and> valid_hex ''0x01'' \<and> valid_hex ''0x0203''
   \<and> is_uint256 1 \<and> inj identity_digest
   \<and> spec_hex_bytes ''0x0102'' \<noteq> spec_hex_bytes ''0x01''
   \<and> spec_hex_bytes ''0x03'' \<noteq> spec_hex_bytes ''0x0203''
   \<and> calculateCommitment identity_digest ''0x0102'' ''0x03'' 1 1
       = calculateCommitment identity_digest ''0x01'' ''0x0203'' 1 1"
proof -
  have "valid_hex ''0x0102''" and "valid_hex ''0x03''" and "valid_hex ''0x01''"
    and "valid_hex ''0x0203''"
    by code_simp+
  moreover have "is_uint256 1"
    by (simp add: is_uint256_def)
  moreover have "spec_hex_bytes ''0x0102'' \<noteq> spec_hex_bytes ''0x01''"
    and "spec_hex_bytes ''0x03'' \<noteq> spec_hex_bytes ''0x0203''"
    by code_simp+
  moreover have "hexToBytes ''0x0102'' @ hexToBytes ''0x03''
                   = hexToBytes ''0x01'' @ hexToBytes ''0x0203''"
    by code_simp
  then have "calculateCommitment identity_digest ''0x0102'' ''0x03'' 1 1
               = calculateCommitment identity_digest ''0x01'' ''0x0203'' 1 1"
    by (simp only: calculateCommitment_closed append_assoc [symmetric])
  ultimately show ?thesis
    using inj_identity_digest by (simp only: simp_thms)
qed

text \<open>
  Claim C3, amended. With a collision-free hash, two valid input tuples have the same
  commitment exactly when the decoded bytes of secret and nullifier, concatenated, are the
  same and assetId and amount are the same; every other pair of valid tuples has distinct
  commitments. Changing a single byte of the secret, the nullifier, the assetId or the
  amount changes the concatenation or an integer, and so the commitment.
\<close>

theorem calculateCommitment_equal_iff_same_preimage:
  assumes "inj keccak256"
    and "valid_hex secret1" and "valid_hex nullifier1"
    and "is_uint256 assetId1" and "is_uint256 amount1"
    and "valid_hex secret2" and "valid_hex nullifier2"
    and "is_uint256 assetId2" and "is_uint256 amount2"
  shows "calculateCommitment keccak256 secret1 nullifier1 assetId1 amount1
           = calculateCommitment keccak256 secret2 nullifier2 assetId2 amount2
         \<longleftrightarrow>
         spec_hex_bytes secret1 @ spec_hex_bytes nullifier1
           = spec_hex_bytes secret2 @ spec_hex_bytes nullifier2
         \<and> assetId1 = assetId2 \<and> amount1 = amount2"
proof
  assume "calculateCommitment keccak256 secret1 nullifier1 assetId1 amount1
            = calculateCommitment keccak256 secret2 nullifier2 assetId2 amount2"
  then have "keccak256 (spec_preimage secret1 nullifier1 assetId1 amount1)
               = keccak256 (spec_preimage secret2 nullifier2 assetId2 amount2)"
    by (simp only: calculateCommitment_valid [OF assms(2,3)]
          calculateCommitment_valid [OF assms(6,7)] sum.inject)
  with assms(1) have "spec_preimage secret1 nullifier1 assetId1 amount1
                        = spec_preimage secret2 nullifier2 assetId2 amount2"
    by (simp only: inj_eq)
  then have "(spec_hex_bytes secret1 @ spec_hex_bytes nullifier1)
               @ spec_be_bytes 32 assetId1 @ spec_be_bytes 32 amount1
             = (spec_hex_bytes secret2 @ spec_hex_bytes nullifier2)
               @ spec_be_bytes 32 assetId2 @ spec_be_bytes 32 amount2"
    by (simp only: spec_preimage_def append_assoc)
  then have "spec_hex_bytes secret1 @ spec_hex_bytes nullifier1
               = spec_hex_bytes secret2 @ spec_hex_bytes nullifier2
             \<and> spec_be_bytes 32 assetId1 = spec_be_bytes 32 assetId2
             \<and> spec_be_bytes 32 amount1 = spec_be_bytes 32 amount2"
    by (rule preimage_tail) (simp_all only: length_spec_be_bytes)
  with assms(4,5,8,9)
  show "spec_hex_bytes secret1 @ spec_hex_bytes nullifier1
          = spec_hex_bytes secret2 @ spec_hex_bytes nullifier2
        \<and> assetId1 = assetId2 \<and> amount1 = amount2"
    by (blast intro: spec_be_bytes_inj)
next
  assume e: "spec_hex_bytes secret1 @ spec_hex_bytes nullifier1
          = spec_hex_bytes secret2 @ spec_hex_bytes nullifier2
        \<and> assetId1 = assetId2 \<and> amount1 = amount2"
  then have "spec_preimage secret1 nullifier1 assetId1 amount1
               = spec_preimage secret2 nullifier2 assetId2 amount2"
    unfolding spec_preimage_def by (simp only: append_assoc [symmetric])
  then show "calculateCommitment keccak256 secret1 nullifier1 assetId1 amount1
               = calculateCommitment keccak256 secret2 nullifier2 assetId2 amount2"
    by (simp only: calculateCommitment_valid [OF assms(2,3)]
          calculateCommitment_valid [OF assms(6,7)])
qed

theorem calculateCommitment_equal_iff_same_preimage_witness:
  "inj identity_digest
   \<and> valid_hex ''0x01'' \<and> valid_hex ''0x0203'' \<and> valid_hex ''0x0405'' \<and> valid_hex ''0x06''
   \<and> valid_hex ''0x0102'' \<and> valid_hex ''0x03''
   \<and> is_uint256 1 \<and> is_uint256 1000000000000000000
   \<and> calculateCommitment identity_digest ''0x01'' ''0x0203'' 1 1000000000000000000
       \<noteq> calculateCommitment identity_digest ''0x0405'' ''0x06'' 1 1000000000000000000
   \<and> calculateCommitment identity_digest ''0x01'' ''0x0203'' 1 1000000000000000000
       \<noteq> calculateCommitment identity_digest ''0x01'' ''0x0203'' 1 1
   \<and> calculateCommitment identity_digest ''0x01'' ''0x0203'' 1 1000000000000000000
       = calculateCommitment identity_digest ''0x0102'' ''0x03'' 1 1000000000000000000"
proof -
  have v: "valid_hex ''0x01''" "valid_hex ''0x0203''" "valid_hex ''0x0405''" "valid_hex ''0x06''"
    "valid_hex ''0x0102''" "valid_hex ''0x03''"
    by code_simp+
  have u: "is_uint256 1" "is_uint256 1000000000000000000"
    by (simp_all add: is_uint256_def)
  have d: "spec_hex_bytes ''0x01'' @ spec_hex_bytes ''0x0203''
             \<noteq> spec_hex_bytes ''0x0405'' @ spec_hex_bytes ''0x06''"
    by code_simp
  have e: "spec_hex_bytes ''0x01'' @ spec_hex_bytes ''0x0203''
             = spec_hex_bytes ''0x0102'' @ spec_hex_bytes ''0x03''"
    by code_simp
  have "calculateCommitment identity_digest ''0x01'' ''0x0203'' 1 1000000000000000000
          \<noteq> calculateCommitment identity_digest ''0x0405'' ''0x06'' 1 1000000000000000000"
    using calculateCommitment_equal_iff_same_preimage
            [OF inj_identity_digest v(1) v(2) u(1) u(2) v(3) v(4) u(1) u(2)] d
    by blast
  moreover
  have "calculateCommitment identity_digest ''0x01'' ''0x0203'' 1 1000000000000000000
          \<noteq> calculateCommitment identity_digest ''0x01'' ''0x0203'' 1 1"
    using calculateCommitment_equal_iff_same_preimage
            [OF inj_identity_digest v(1) v(2) u(1) u(2) v(1) v(2) u(1) u(1)]
    by simp
  moreover
  have "calculateCommitment identity_digest ''0x01'' ''0x0203'' 1 1000000000000000000
          = calculateCommitment identity_digest ''0x0102'' ''0x03'' 1 1000000000000000000"
    using calculateCommitment_equal_iff_same_preimage
            [OF inj_identity_digest v(1) v(2) u(1) u(2) v(5) v(6) u(1) u(2)] e
    by blast
  ultimately show ?thesis
    using inj_identity_digest v u by (simp only: simp_thms)
qed

text \<open>
  Claim C9. \<^verbatim>\<open>calculateCommitment\<close> is deterministic and pure. Run in any two
  worlds, whatever was sent and whatever arrays exist, two calls with identical inputs
  yield identical output, and so do two calls one after the other, the second in the world
  the first left. A call sends nothing, and every array that existed before it is
  unchanged after it: what it stores goes into arrays it allocated itself.
\<close>

theorem calculateCommitment_deterministic:
  "fst (calculateCommitment_run keccak256 secret nullifier assetId amount w1)
     = fst (calculateCommitment_run keccak256 secret nullifier assetId amount w2)
   \<and> fst (calculateCommitment_run keccak256 secret nullifier assetId amount
            (snd (calculateCommitment_run keccak256 secret nullifier assetId amount w1)))
     = fst (calculateCommitment_run keccak256 secret nullifier assetId amount w1)
   \<and> sent (snd (calculateCommitment_run keccak256 secret nullifier assetId amount w1)) = sent w1
   \<and> take (length (arrays w1))
         (arrays (snd (calculateCommitment_run keccak256 secret nullifier assetId amount w1)))
       = arrays w1"
  by (simp add: calculateCommitment_run_eq)

theorem calculateCommitment_deterministic_witness:
  "fst (calculateCommitment_run xor_digest ''0x01'' ''0x02'' 1 1000000000000000000 quiet_world)
     = Inr ''0x29''
   \<and> fst (calculateCommitment_run xor_digest ''0x01'' ''0x02'' 1 1000000000000000000 busy_world)
     = Inr ''0x29''
   \<and> sent (snd (calculateCommitment_run xor_digest ''0x01'' ''0x02'' 1 1000000000000000000
                  busy_world)) = [root_request]
   \<and> take 2 (arrays (snd (calculateCommitment_run xor_digest ''0x01'' ''0x02'' 1
                  1000000000000000000 busy_world))) = [[7, 7], [255]]"
proof -
  have q: "fst (calculateCommitment_run xor_digest ''0x01'' ''0x02'' 1 1000000000000000000
             quiet_world) = Inr ''0x29''"
    by (simp add: calculateCommitment_run_eq example_commitment)
  from calculateCommitment_deterministic
         [of xor_digest "''0x01''" "''0x02''" 1 1000000000000000000 busy_world quiet_world] q
  show ?thesis
    by (simp add: busy_world_def numeral_2_eq_2)
qed

text \<open>
  Claim C10. For hexadecimal digit strings of even length as secret and nullifier, the
  commitment is the same whether or not each carries the prefix \<^verbatim>\<open>0x\<close>.
\<close>

theorem calculateCommitment_prefix_irrelevant:
  assumes "list_all is_hex_char hs" and "even (length hs)"
    and "list_all is_hex_char hn" and "even (length hn)"
  shows "calculateCommitment keccak256 (''0x'' @ hs) (''0x'' @ hn) assetId amount
           = calculateCommitment keccak256 hs hn assetId amount
         \<and> calculateCommitment keccak256 (''0x'' @ hs) hn assetId amount
           = calculateCommitment keccak256 hs hn assetId amount
         \<and> calculateCommitment keccak256 hs (''0x'' @ hn) assetId amount
           = calculateCommitment keccak256 hs hn assetId amount"
  by (simp only: calculateCommitment_closed hexToBytes_prefix [OF assms(1)]
        hexToBytes_prefix [OF assms(3)] simp_thms)

theorem calculateCommitment_prefix_irrelevant_witness:
  "list_all is_hex_char ''01'' \<and> even (length ''01'')
   \<and> list_all is_hex_char ''02'' \<and> even (length ''02'')
   \<and> calculateCommitment xor_digest ''0x01'' ''0x02'' 1 1000000000000000000
       = calculateCommitment xor_digest ''01'' ''02'' 1 1000000000000000000
   \<and> calculateCommitment xor_digest ''0x01'' ''02'' 1 1000000000000000000
       = calculateCommitment xor_digest ''01'' ''02'' 1 1000000000000000000
   \<and> calculateCommitment xor_digest ''01'' ''0x02'' 1 1000000000000000000
       = calculateCommitment xor_digest ''01'' ''02'' 1 1000000000000000000"
proof -
  have h: "list_all is_hex_char ''01''" "even (length ''01'')"
    "list_all is_hex_char ''02''" "even (length ''02'')"
    by code_simp+
  from calculateCommitment_prefix_irrelevant [OF h, of xor_digest 1 1000000000000000000] h
  show ?thesis by simp
qed

section \<open>The clients of the indexing service and of the contract\<close>

text \<open>
  Claim C4. Every call of \<^verbatim>\<open>generateCommitmentAndProof\<close> works in a fixed order: it
  derives the commitment from its four inputs, then requests the Merkle proof for that
  commitment, then requests the current root. The requests it adds to those sent before
  are the proof request alone, when the call fails there, or the proof request followed by
  the root request. When the call succeeds, the commitment it returns is the derived one,
  the proof is what the service answered to the proof request, and the root is what the
  service answered to the root request of this call, an answer given after the proof
  request was sent.
\<close>

theorem generateCommitmentAndProof_order:
  assumes "generateCommitmentAndProof keccak256 srv secret nullifier assetId amount log
             = (res, log')"
  shows "\<exists>c. calculateCommitment keccak256 secret nullifier assetId amount = Inr c
           \<and> (log' = log @ [proof_request c] \<or> log' = log @ [proof_request c, root_request])
           \<and> (\<forall>r. res = Inr r \<longrightarrow>
                 commitment r = c
                 \<and> log' = log @ [proof_request c, root_request]
                 \<and> getMerkleProof srv c log = (Inr (merkleProof r), log @ [proof_request c])
                 \<and> getCurrentRoot srv (log @ [proof_request c]) = (Inr (root r), log')
                 \<and> proof_of_response (srv log (proof_request c)) = Inr (merkleProof r)
                 \<and> root_of_response (srv (log @ [proof_request c]) root_request)
                     = Inr (root r))"
proof -
  obtain c where c: "calculateCommitment keccak256 secret nullifier assetId amount = Inr c"
    by (simp add: calculateCommitment_closed)
  from assms show ?thesis
    unfolding generateCommitmentAndProof_eq [OF c]
    by (intro exI [of _ c])
       (auto simp: c getMerkleProof_eq getCurrentRoot_eq split: sum.splits)
qed

text \<open>
  With \<open>example_service\<close> the root returned is \<^verbatim>\<open>0x0b\<close>, the one served after the
  proof request, not \<^verbatim>\<open>0x0a\<close>, the one a root request sent first would have got.
\<close>

theorem generateCommitmentAndProof_order_witness:
  "generateCommitmentAndProof xor_digest example_service ''0x01'' ''0x02'' 1 1000000000000000000 []
     = (Inr \<lparr>commitment = ''0x29'',
              merkleProof = JObj [(''siblings'', JArr [JStr ''0x0c'']),
                                  (''pathIndices'', JArr [JNum 1])],
              root = JStr ''0x0b''\<rparr>,
        [proof_request ''0x29'', root_request])
   \<and> calculateCommitment xor_digest ''0x01'' ''0x02'' 1 1000000000000000000 = Inr ''0x29''
   \<and> root_of_response (example_service ([] @ [proof_request ''0x29'']) root_request)
       = Inr (JStr ''0x0b'')
   \<and> root_of_response (example_service [] root_request) = Inr (JStr ''0x0a'')"
proof -
  let ?r = "\<lparr>commitment = ''0x29'',
              merkleProof = JObj [(''siblings'', JArr [JStr ''0x0c'']),
                                  (''pathIndices'', JArr [JNum 1])],
              root = JStr ''0x0b''\<rparr>"
  have run: "generateCommitmentAndProof xor_digest example_service ''0x01'' ''0x02'' 1
               1000000000000000000 [] = (Inr ?r, [proof_request ''0x29'', root_request])"
    by (simp add: generateCommitmentAndProof_eq [OF example_commitment] example_service_def
          proof_of_response_def root_of_response_def proof_request_def root_request_def)
  from generateCommitmentAndProof_order [OF run]
  have "root_of_response (example_service ([] @ [proof_request ''0x29'']) root_request)
          = Inr (JStr ''0x0b'')"
    by (auto simp: example_commitment)
  moreover have "root_of_response (example_service [] root_request) = Inr (JStr ''0x0a'')"
    by (simp add: example_service_def root_of_response_def)
  ultimately show ?thesis
    using run example_commitment by simp
qed



text \<open>
  Claim C6, as stated, fails: \<^verbatim>\<open>getMerkleProof\<close> returns \<^verbatim>\<open>data.merkleProof\<close> as
  it came. A service that sends two siblings and one path index gets them handed to the
  caller in a successful result.
\<close>

theorem getMerkleProof_length_invariant_counterexample:
  "getMerkleProof mismatched_service ''0x29'' []
     = (Inr (JObj [(''siblings'', JArr [JStr ''0x0c'', JStr ''0x0d'']),
                   (''pathIndices'', JArr [JNum 1])]),
        [proof_request ''0x29''])
   \<and> \<not> lengths_agree (JObj [(''siblings'', JArr [JStr ''0x0c'', JStr ''0x0d'']),
                              (''pathIndices'', JArr [JNum 1])])"
  by (simp add: getMerkleProof_eq proof_of_response_def mismatched_service_def
        lengths_agree_def)

text \<open>
  Claim C6, amended. The proof a successful \<^verbatim>\<open>getMerkleProof\<close> returns is the
  \<^verbatim>\<open>merkleProof\<close> member of the service's response, unchanged and unchecked; the
  lengths of its siblings and path indices agree exactly when those of the served proof
  do.
\<close>

theorem getMerkleProof_returns_served_proof:
  assumes "getMerkleProof srv commitment' log = (Inr p, log')"
  shows "\<exists>response data.
           srv log (proof_request commitment') = Resolved response
           \<and> resp_ok response
           \<and> resp_json response = Inr data
           \<and> get_prop data ''merkleProof'' = Inr p
           \<and> (lengths_agree p \<longleftrightarrow>
                (\<exists>served. get_prop data ''merkleProof'' = Inr served \<and> lengths_agree served))"
  using assms
  by (auto simp: getMerkleProof_eq proof_of_response_def
        split: fetch_result.splits sum.splits if_splits)

theorem getMerkleProof_returns_served_proof_witness:
  "getMerkleProof example_service ''0x29'' []
     = (Inr (JObj [(''siblings'', JArr [JStr ''0x0c'']), (''pathIndices'', JArr [JNum 1])]),
        [proof_request ''0x29''])
   \<and> (\<exists>response data.
          example_service [] (proof_request ''0x29'') = Resolved response
          \<and> resp_json response = Inr data
          \<and> get_prop data ''merkleProof''
              = Inr (JObj [(''siblings'', JArr [JStr ''0x0c'']),
                           (''pathIndices'', JArr [JNum 1])]))
   \<and> lengths_agree (JObj [(''siblings'', JArr [JStr ''0x0c'']),
                            (''pathIndices'', JArr [JNum 1])])"
proof -
  have run: "getMerkleProof example_service ''0x29'' []
     = (Inr (JObj [(''siblings'', JArr [JStr ''0x0c'']), (''pathIndices'', JArr [JNum 1])]),
        [proof_request ''0x29''])"
    by (simp add: getMerkleProof_eq proof_of_response_def example_service_def
          proof_request_def root_request_def)
  have inv: "lengths_agree (JObj [(''siblings'', JArr [JStr ''0x0c'']),
                                  (''pathIndices'', JArr [JNum 1])])"
    by (simp add: lengths_agree_def)
  from getMerkleProof_returns_served_proof [OF run] run inv
  show ?thesis by blast
qed




text \<open>
  Claim C8. What the core operations send depends on the secret and the nullifier through
  the commitment only: two calls of \<^verbatim>\<open>generateCommitmentAndProof\<close> whose inputs have
  the same commitment send the same requests and get the same result, the requests of a
  call are the proof request for the commitment and the root request, which has no body,
  and \<^verbatim>\<open>getMerkleProof\<close> and \<^verbatim>\<open>checkCommitmentExists\<close> send one request each,
  built from the commitment they are given.
\<close>

theorem secrets_reach_network_through_commitment_only:
  assumes "calculateCommitment keccak256 secret nullifier assetId amount
             = calculateCommitment keccak256 secret' nullifier' assetId' amount'"
  shows "generateCommitmentAndProof keccak256 srv secret nullifier assetId amount log
           = generateCommitmentAndProof keccak256 srv secret' nullifier' assetId' amount' log
         \<and> (\<exists>c. calculateCommitment keccak256 secret nullifier assetId amount = Inr c
                \<and> (snd (generateCommitmentAndProof keccak256 srv secret nullifier assetId
                          amount log) = log @ [proof_request c]
                   \<or> snd (generateCommitmentAndProof keccak256 srv secret nullifier assetId
                          amount log) = log @ [proof_request c, root_request])
                \<and> snd (getMerkleProof srv c log) = log @ [proof_request c]
                \<and> snd (checkCommitmentExists srv c log) = log @ [check_request c])"
proof -
  obtain c where c: "calculateCommitment keccak256 secret nullifier assetId amount = Inr c"
    by (simp add: calculateCommitment_closed)
  with assms have c': "calculateCommitment keccak256 secret' nullifier' assetId' amount' = Inr c"
    by simp
  have "generateCommitmentAndProof keccak256 srv secret nullifier assetId amount log
          = generateCommitmentAndProof keccak256 srv secret' nullifier' assetId' amount' log"
    by (simp only: generateCommitmentAndProof_eq [OF c] generateCommitmentAndProof_eq [OF c'])
  moreover have "snd (generateCommitmentAndProof keccak256 srv secret nullifier assetId
                        amount log) = log @ [proof_request c]
                \<or> snd (generateCommitmentAndProof keccak256 srv secret nullifier assetId
                        amount log) = log @ [proof_request c, root_request]"
    by (simp add: generateCommitmentAndProof_eq [OF c] split: sum.splits)
  moreover have "snd (getMerkleProof srv c log) = log @ [proof_request c]"
    by (simp add: getMerkleProof_eq)
  moreover have "snd (checkCommitmentExists srv c log) = log @ [check_request c]"
    by (simp add: checkCommitmentExists_def fetch_def)
  ultimately show ?thesis using c by blast
qed

theorem secrets_reach_network_through_commitment_only_witness:
  "calculateCommitment xor_digest ''0x0102'' ''0x03'' 1 1000000000000000000
     = calculateCommitment xor_digest ''01'' ''0203'' 1 1000000000000000000
   \<and> generateCommitmentAndProof xor_digest example_service ''0x0102'' ''0x03'' 1
         1000000000000000000 []
     = generateCommitmentAndProof xor_digest example_service ''01'' ''0203'' 1
         1000000000000000000 []"
proof -
  have "hexToBytes ''0x0102'' @ hexToBytes ''0x03'' = hexToBytes ''01'' @ hexToBytes ''0203''"
    by code_simp
  then have e: "calculateCommitment xor_digest ''0x0102'' ''0x03'' 1 1000000000000000000
                  = calculateCommitment xor_digest ''01'' ''0203'' 1 1000000000000000000"
    by (simp only: calculateCommitment_closed append_assoc [symmetric])
  from secrets_reach_network_through_commitment_only [OF e, of example_service "[]"] e
  show ?thesis by (simp only: simp_thms)
qed

end
